theory Spec2Isabelle
  imports Main "HOL-Library.Word" "HOL-Library.Sublist"
begin

section \<open>The Lambda service (package lambda of internal/aws)\<close>

text \<open>
  Go strings are byte sequences, modelled as \<open>string\<close>, and an \<open>int32\<close> is a word of 32
  bits. A Go \<open>error\<close> value is represented by its message. A \<open>time.Time\<close> is an instant counted from the zero
  time (January 1, year 1, 00:00:00 UTC), so the zero value of \<open>time.Time\<close> is \<open>0\<close>.
  A run-time panic of the Go program is a value of type \<open>panic\<close>.
\<close>

type_synonym error = string

type_synonym Time = int

definition zeroTime :: Time where
  "zeroTime = 0"

datatype panic = NilDereference | SliceOutOfRange

subsection \<open>The SDK types the service reads\<close>

text \<open>
  The types of the provider SDK as the service uses them. A pointer field is an
  \<open>option\<close> (\<open>None\<close> is \<open>nil\<close>). The Go map \<open>Variables\<close> is \<open>None\<close> when \<open>nil\<close> and
  otherwise the list of its bindings in the order in which \<open>range\<close> visits them;
  the keys of a Go map are distinct.
\<close>

record EnvironmentResponse =
  Variables :: "(string \<times> string) list option"

record FunctionConfiguration =
  FunctionName :: "string option"
  Runtime :: string
  Handler :: "string option"
  MemorySize :: "32 word option"
  Timeout :: "32 word option"
  State :: string
  Description :: "string option"
  LastModified :: "string option"
  Environment :: "EnvironmentResponse option"

record ListFunctionsOutput =
  Functions :: "FunctionConfiguration list"

record GetFunctionOutput =
  Configuration :: "FunctionConfiguration option"

subsection \<open>The service's own record\<close>

record Function =
  Name :: string
  Runtime :: string
  Handler :: string
  Description :: string
  Memory :: "32 word"
  Timeout :: "32 word"
  LastModified :: Time
  Status :: string
  Environment :: "string \<rightharpoonup> string"

subsection \<open>isSensitiveEnvVar\<close>

definition sensitiveKeys :: "string list" where
  "sensitiveKeys =
     [''PASSWORD'', ''PASSWD'', ''SECRET'', ''KEY'', ''TOKEN'', ''API_KEY'',
      ''AWS_SECRET_ACCESS_KEY'', ''DATABASE_PASSWORD'', ''DB_PASSWORD'',
      ''PRIVATE_KEY'', ''CERT'', ''CREDENTIAL'']"

text \<open>The slice expression \<open>s[i:j]\<close>, which panics when the bounds are out of range.\<close>

definition slice :: "string \<Rightarrow> nat \<Rightarrow> nat \<Rightarrow> panic + string" where
  "slice s i j =
     (if i \<le> j \<and> j \<le> length s then Inr (take (j - i) (drop i s))
      else Inl SliceOutOfRange)"

text \<open>
  The inner loop \<open>for i := 0; i <= len(keyUpper)-len(sensitive); i++\<close>, started at \<open>i\<close>.
  The bound is a signed difference in Go, hence the comparison over \<open>int\<close>.
\<close>

function substringLoop :: "string \<Rightarrow> string \<Rightarrow> nat \<Rightarrow> panic + bool" where
  "substringLoop keyUpper sensitive i =
     (if int i \<le> int (length keyUpper) - int (length sensitive) then
        (case slice keyUpper i (i + length sensitive) of
           Inl p \<Rightarrow> Inl p
         | Inr part \<Rightarrow>
             if part = sensitive then Inr True
             else substringLoop keyUpper sensitive (i + 1))
      else Inr False)"
  by pat_completeness auto
termination
  by (relation "measure (\<lambda>(keyUpper, sensitive, i). Suc (length keyUpper) - i)") auto

text \<open>The outer loop \<open>for _, sensitive := range sensitiveKeys\<close>.\<close>

fun sensitiveLoop :: "string \<Rightarrow> string list \<Rightarrow> panic + bool" where
  "sensitiveLoop keyUpper [] = Inr False"
| "sensitiveLoop keyUpper (sensitive # rest) =
     (if keyUpper = sensitive \<or> length keyUpper > length sensitive then
        (case substringLoop keyUpper sensitive 0 of
           Inl p \<Rightarrow> Inl p
         | Inr found \<Rightarrow> if found then Inr True else sensitiveLoop keyUpper rest)
      else sensitiveLoop keyUpper rest)"

text \<open>\<open>keyUpper := key\<close>: the key is compared as it is, without a change of case.\<close>

definition isSensitiveEnvVar :: "string \<Rightarrow> panic + bool" where
  "isSensitiveEnvVar key = sensitiveLoop key sensitiveKeys"

definition masked :: string where
  "masked = ''***masked***''"

subsection \<open>ListFunctions\<close>

text \<open>The loop over \<open>fn.Environment.Variables\<close> in ListFunctions.\<close>

fun ListFunctions_maskLoop ::
  "(string \<times> string) list \<Rightarrow> (string \<rightharpoonup> string) \<Rightarrow> panic + (string \<rightharpoonup> string)" where
  "ListFunctions_maskLoop [] env = Inr env"
| "ListFunctions_maskLoop ((k, v) # rest) env =
     (case isSensitiveEnvVar k of
        Inl p \<Rightarrow> Inl p
      | Inr sensitive \<Rightarrow>
          if sensitive then ListFunctions_maskLoop rest (env(k \<mapsto> masked))
          else ListFunctions_maskLoop rest (env(k \<mapsto> v)))"

text \<open>
  The body of the loop over \<open>page.Functions\<close>: one SDK configuration to one
  \<open>Function\<close>. \<open>parse\<close> stands for \<open>time.Parse(time.RFC3339, _)\<close>, \<open>None\<close> being its
  error result.
\<close>

definition ListFunctions_convert ::
  "(string \<Rightarrow> Time option) \<Rightarrow> FunctionConfiguration \<Rightarrow> panic + Function" where
  "ListFunctions_convert parse fn =
     (case FunctionName fn of None \<Rightarrow> Inl NilDereference | Some name \<Rightarrow>
      case FunctionConfiguration.Handler fn of None \<Rightarrow> Inl NilDereference | Some handler \<Rightarrow>
      case MemorySize fn of None \<Rightarrow> Inl NilDereference | Some memory \<Rightarrow>
      case FunctionConfiguration.Timeout fn of None \<Rightarrow> Inl NilDereference | Some timeout \<Rightarrow>
      let function = \<lparr>Name = name, Runtime = FunctionConfiguration.Runtime fn,
                        Handler = handler, Description = [], Memory = memory,
                        Timeout = timeout, LastModified = zeroTime, Status = State fn,
                        Environment = Map.empty\<rparr>;
          function = (case FunctionConfiguration.Description fn of
                        None \<Rightarrow> function
                      | Some d \<Rightarrow> function\<lparr>Description := d\<rparr>);
          function = (case FunctionConfiguration.LastModified fn of
                        None \<Rightarrow> function
                      | Some s \<Rightarrow> (case parse s of
                                    None \<Rightarrow> function
                                  | Some t \<Rightarrow> function\<lparr>LastModified := t\<rparr>))
      in case FunctionConfiguration.Environment fn of
           None \<Rightarrow> Inr function
         | Some e \<Rightarrow>
             (case Variables e of
                None \<Rightarrow> Inr function
              | Some vars \<Rightarrow>
                  (case ListFunctions_maskLoop vars (Environment function) of
                     Inl p \<Rightarrow> Inl p
                   | Inr env \<Rightarrow> Inr (function\<lparr>Environment := env\<rparr>))))"

text \<open>The loop \<open>for _, fn := range page.Functions\<close> with its \<open>append\<close>.\<close>

fun ListFunctions_pageLoop ::
  "(string \<Rightarrow> Time option) \<Rightarrow> FunctionConfiguration list \<Rightarrow> Function list
     \<Rightarrow> panic + Function list" where
  "ListFunctions_pageLoop parse [] functions = Inr functions"
| "ListFunctions_pageLoop parse (fn # rest) functions =
     (case ListFunctions_convert parse fn of
        Inl p \<Rightarrow> Inl p
      | Inr function \<Rightarrow> ListFunctions_pageLoop parse rest (functions @ [function]))"

text \<open>
  The paginator belongs to the SDK. It is a state \<open>'p\<close> with its two methods:
  \<open>hasMorePages\<close>, and \<open>nextPage\<close>, which returns the page or the error together
  with the paginator's next state. The loop \<open>for paginator.HasMorePages()\<close> need
  not end (nothing in ListFunctions bounds the number of pages), so its result is
  an \<open>option\<close>: \<open>None\<close> is a loop that never returns. A nil slice is \<open>[]\<close> and a nil
  error is \<open>None\<close>.
\<close>

partial_function (option) ListFunctions_loop ::
  "(string \<Rightarrow> Time option) \<Rightarrow> ('p \<Rightarrow> bool) \<Rightarrow> ('p \<Rightarrow> (error + ListFunctionsOutput) \<times> 'p)
     \<Rightarrow> 'p \<Rightarrow> Function list \<Rightarrow> (panic + Function list \<times> error option) option" where
  "ListFunctions_loop parse hasMorePages nextPage paginator functions =
     (if hasMorePages paginator then
        (case nextPage paginator of
           (Inl err, paginator') \<Rightarrow> Some (Inr ([], Some err))
         | (Inr page, paginator') \<Rightarrow>
             (case ListFunctions_pageLoop parse (Functions page) functions of
                Inl p \<Rightarrow> Some (Inl p)
              | Inr functions' \<Rightarrow>
                  ListFunctions_loop parse hasMorePages nextPage paginator' functions'))
      else Some (Inr (functions, None)))"

definition ListFunctions ::
  "(string \<Rightarrow> Time option) \<Rightarrow> ('p \<Rightarrow> bool) \<Rightarrow> ('p \<Rightarrow> (error + ListFunctionsOutput) \<times> 'p)
     \<Rightarrow> 'p \<Rightarrow> (panic + Function list \<times> error option) option" where
  "ListFunctions parse hasMorePages nextPage paginator =
     ListFunctions_loop parse hasMorePages nextPage paginator []"

subsection \<open>GetFunction\<close>

text \<open>The loop over \<open>fn.Environment.Variables\<close> in GetFunction.\<close>

fun GetFunction_maskLoop ::
  "(string \<times> string) list \<Rightarrow> (string \<rightharpoonup> string) \<Rightarrow> panic + (string \<rightharpoonup> string)" where
  "GetFunction_maskLoop [] env = Inr env"
| "GetFunction_maskLoop ((k, v) # rest) env =
     (case isSensitiveEnvVar k of
        Inl p \<Rightarrow> Inl p
      | Inr sensitive \<Rightarrow>
          if sensitive then GetFunction_maskLoop rest (env(k \<mapsto> masked))
          else GetFunction_maskLoop rest (env(k \<mapsto> v)))"

text \<open>The conversion of \<open>result.Configuration\<close>, once the pointer has been followed.\<close>

definition GetFunction_convert ::
  "(string \<Rightarrow> Time option) \<Rightarrow> FunctionConfiguration \<Rightarrow> panic + Function" where
  "GetFunction_convert parse fn =
     (case FunctionName fn of None \<Rightarrow> Inl NilDereference | Some name \<Rightarrow>
      case FunctionConfiguration.Handler fn of None \<Rightarrow> Inl NilDereference | Some handler \<Rightarrow>
      case MemorySize fn of None \<Rightarrow> Inl NilDereference | Some memory \<Rightarrow>
      case FunctionConfiguration.Timeout fn of None \<Rightarrow> Inl NilDereference | Some timeout \<Rightarrow>
      let function = \<lparr>Name = name, Runtime = FunctionConfiguration.Runtime fn,
                        Handler = handler, Description = [], Memory = memory,
                        Timeout = timeout, LastModified = zeroTime, Status = State fn,
                        Environment = Map.empty\<rparr>;
          function = (case FunctionConfiguration.Description fn of
                        None \<Rightarrow> function
                      | Some d \<Rightarrow> function\<lparr>Description := d\<rparr>);
          function = (case FunctionConfiguration.LastModified fn of
                        None \<Rightarrow> function
                      | Some s \<Rightarrow> (case parse s of
                                    None \<Rightarrow> function
                                  | Some t \<Rightarrow> function\<lparr>LastModified := t\<rparr>))
      in case FunctionConfiguration.Environment fn of
           None \<Rightarrow> Inr function
         | Some e \<Rightarrow>
             (case Variables e of
                None \<Rightarrow> Inr function
              | Some vars \<Rightarrow>
                  (case GetFunction_maskLoop vars (Environment function) of
                     Inl p \<Rightarrow> Inl p
                   | Inr env \<Rightarrow> Inr (function\<lparr>Environment := env\<rparr>))))"

text \<open>
  \<open>client\<close> stands for \<open>s.client.GetFunction(ctx, input)\<close> as a function of the
  requested name. \<open>result.Configuration\<close> is a pointer, followed by
  \<open>fn.FunctionName\<close>.
\<close>

definition GetFunction ::
  "(string \<Rightarrow> Time option) \<Rightarrow> (string \<Rightarrow> error + GetFunctionOutput) \<Rightarrow> string
     \<Rightarrow> panic + Function option \<times> error option" where
  "GetFunction parse client name =
     (case client name of
        Inl err \<Rightarrow> Inr (None, Some err)
      | Inr result \<Rightarrow>
          (case Configuration result of
             None \<Rightarrow> Inl NilDereference
           | Some fn \<Rightarrow>
               (case GetFunction_convert parse fn of
                  Inl p \<Rightarrow> Inl p
                | Inr function \<Rightarrow> Inr (Some function, None))))"


section \<open>The client manager (package aws of internal/aws)\<close>

text \<open>
  \<open>aws.Config\<close> belongs to the SDK. The client manager reads and writes its
  \<open>Region\<close> only; everything else a configuration holds is the field \<open>Others\<close>.
  A service client is the value \<open>NewFromConfig\<close> builds from a configuration.
\<close>

record 'o Config =
  Region :: string
  Others :: 'o

datatype 'o lambda_Client = lambda_NewFromConfig "'o Config"

datatype 'o s3_Client = s3_NewFromConfig "'o Config"

datatype 'o ecs_Client = ecs_NewFromConfig "'o Config"

record 'o ClientManager =
  config :: "'o Config"
  region :: string
  profile :: string
  lambdaClient :: "'o lambda_Client option"
  s3Client :: "'o s3_Client option"
  ecsClient :: "'o ecs_Client option"





section \<open>The caching core of the specification\<close>

text \<open>
  No source file holds a cache, a fetch coordinator or a session context: the
  view calls the service and the service calls the provider. The definitions of this
  section follow the specification's sections 3 and 4. The model is sequential:
  an operation runs to its end before the next one starts, so no fetch is in
  flight between two operations. Times and durations are integers in one unit.
\<close>

text \<open>Modelled from the spec: the record ResourceKey of the data model, which no
  source file declares.\<close>

record ResourceKey =
  kind :: string
  accountIdentifier :: string
  region :: string
  extra :: string

text \<open>Modelled from the spec: the record CacheEntry of the data model, which no
  source file declares.\<close>

record 'v CacheEntry =
  key :: ResourceKey
  "value" :: 'v
  storedAt :: int
  ttl :: int
  sessionVersion :: nat

text \<open>Modelled from the spec: the record SessionContext of the data model, which no
  source file declares.\<close>

record SessionContext =
  accountIdentifier :: string
  region :: string
  profile :: string
  version :: nat

text \<open>Modelled from the spec: the state of the CacheStore, missing from the sources:
  its entries, the most recently used first, and the configured capacity.\<close>

record 'v CacheStore =
  entries :: "'v CacheEntry list"
  capacity :: nat

text \<open>Modelled from the spec: the validity of an entry, missing from the sources:
  "an entry is considered valid iff now - storedAt < ttl AND sessionVersion ==
  CurrentSessionVersion".\<close>

definition valid :: "int \<Rightarrow> nat \<Rightarrow> 'v CacheEntry \<Rightarrow> bool" where
  "valid now current e = (now - storedAt e < ttl e \<and> sessionVersion e = current)"

text \<open>Modelled from the spec: CacheStore.Get, missing from the sources: "returns
  found=false if absent, expired, or tagged with a stale session version". The
  result \<open>Some v\<close> is \<open>(v, true)\<close> and \<open>None\<close> is \<open>(_, false)\<close>. A hit makes the entry
  the most recently used.\<close>

definition Get :: "int \<Rightarrow> nat \<Rightarrow> ResourceKey \<Rightarrow> 'v CacheStore \<Rightarrow> 'v option \<times> 'v CacheStore" where
  "Get now current k store =
     (case find (\<lambda>e. key e = k) (entries store) of
        None \<Rightarrow> (None, store)
      | Some e \<Rightarrow>
          if valid now current e then
            (Some (value e), store\<lparr>entries := e # filter (\<lambda>x. key x \<noteq> k) (entries store)\<rparr>)
          else (None, store))"

text \<open>Modelled from the spec: CacheStore.Put, missing from the sources: "overwrites
  any existing entry for that key, stamping the current session version and
  current time", and evicts the least recently used entries when the store is
  at capacity; the entry being written is never the one evicted.\<close>

definition Put :: "int \<Rightarrow> nat \<Rightarrow> ResourceKey \<Rightarrow> 'v \<Rightarrow> int \<Rightarrow> 'v CacheStore \<Rightarrow> 'v CacheStore" where
  "Put now current k v t store =
     (let others = filter (\<lambda>e. key e \<noteq> k) (entries store);
          kept = (if capacity store \<le> length others then take (capacity store - 1) others
                  else others)
      in store\<lparr>entries :=
           \<lparr>key = k, value = v, storedAt = now, ttl = t, sessionVersion = current\<rparr> # kept\<rparr>)"

text \<open>Modelled from the spec: the error taxonomy of section 7 and the terminal
  notifications of section 6, which no source file declares.\<close>

datatype FailureKind = Timeout | ProviderError | NotFound

datatype 'v Notification = Resolved 'v bool | Failed FailureKind string | Cancelled

text \<open>Modelled from the spec: the state of the ResourceBroker, missing from the
  sources: the session context, the cache store, and the number of times the
  fetch function has been invoked so far.\<close>

record 'v ResourceBroker =
  session :: SessionContext
  cache :: "'v CacheStore"
  fetches :: nat

text \<open>Modelled from the spec: the key that Request builds "from kind + current
  SessionContext + scopeParams"; the function is missing from the sources.\<close>

definition requestKey :: "SessionContext \<Rightarrow> string \<Rightarrow> string \<Rightarrow> ResourceKey" where
  "requestKey s k scope =
     \<lparr>kind = k, accountIdentifier = SessionContext.accountIdentifier s,
      region = SessionContext.region s, extra = scope\<rparr>"

text \<open>Modelled from the spec: ResourceBroker.Request, missing from the sources. On
  a hit the handle is resolved with the cached value; on a miss the fetch
  function is invoked, a success is written to the cache before it is delivered,
  and a failure is delivered without any write. \<open>fetchFn n k\<close> is the outcome of
  the invocation number \<open>n\<close> of the fetch function for the key \<open>k\<close>.\<close>

definition Request ::
  "int \<Rightarrow> int \<Rightarrow> (nat \<Rightarrow> ResourceKey \<Rightarrow> FailureKind \<times> string + 'v) \<Rightarrow> string \<Rightarrow> string
     \<Rightarrow> 'v ResourceBroker \<Rightarrow> 'v Notification \<times> 'v ResourceBroker" where
  "Request now t fetchFn k scope b =
     (let rk = requestKey (session b) k scope;
          current = version (session b)
      in case Get now current rk (cache b) of
           (Some v, store) \<Rightarrow> (Resolved v True, b\<lparr>cache := store\<rparr>)
         | (None, store) \<Rightarrow>
             (case fetchFn (fetches b) rk of
                Inl (failure, message) \<Rightarrow>
                  (Failed failure message, b\<lparr>cache := store, fetches := fetches b + 1\<rparr>)
              | Inr v \<Rightarrow>
                  (Resolved v False,
                   b\<lparr>cache := Put now current rk v t store, fetches := fetches b + 1\<rparr>)))"



section \<open>Notions used to state the properties\<close>

text \<open>The key contains one of the twelve keywords as a contiguous substring.\<close>

definition containsSensitiveKeyword :: "string \<Rightarrow> bool" where
  "containsSensitiveKeyword k =
     list_ex (\<lambda>w. sublist w k)
       [''PASSWORD'', ''PASSWD'', ''SECRET'', ''KEY'', ''TOKEN'', ''API_KEY'',
        ''AWS_SECRET_ACCESS_KEY'', ''DATABASE_PASSWORD'', ''DB_PASSWORD'',
        ''PRIVATE_KEY'', ''CERT'', ''CREDENTIAL'']"

text \<open>The keyword occurs in the key at position \<open>j\<close>.\<close>

definition occursAt :: "string \<Rightarrow> string \<Rightarrow> nat \<Rightarrow> bool" where
  "occursAt s k j = (j + length s \<le> length k \<and> take (length s) (drop j k) = s)"

text \<open>The value the service stores for a variable.\<close>

definition maskedValue :: "string \<Rightarrow> string \<Rightarrow> string" where
  "maskedValue k v = (if containsSensitiveKeyword k then masked else v)"

text \<open>The four pointer fields that the conversion dereferences without a test.\<close>

definition wellFormed :: "FunctionConfiguration \<Rightarrow> bool" where
  "wellFormed fn =
     (FunctionName fn \<noteq> None \<and> FunctionConfiguration.Handler fn \<noteq> None \<and>
      MemorySize fn \<noteq> None \<and> FunctionConfiguration.Timeout fn \<noteq> None)"

text \<open>The state of the paginator after \<open>n\<close> calls of \<open>nextPage\<close>.\<close>

fun paginatorAfter ::
  "('p \<Rightarrow> (error + ListFunctionsOutput) \<times> 'p) \<Rightarrow> 'p \<Rightarrow> nat \<Rightarrow> 'p" where
  "paginatorAfter nextPage paginator 0 = paginator"
| "paginatorAfter nextPage paginator (Suc n) =
     paginatorAfter nextPage (snd (nextPage paginator)) n"

text \<open>The first \<open>n\<close> pages are there and each of them is fetched without an error.\<close>

definition pagesSucceed ::
  "('p \<Rightarrow> bool) \<Rightarrow> ('p \<Rightarrow> (error + ListFunctionsOutput) \<times> 'p) \<Rightarrow> 'p \<Rightarrow> nat \<Rightarrow> bool" where
  "pagesSucceed hasMorePages nextPage paginator n =
     (\<forall>j<n. hasMorePages (paginatorAfter nextPage paginator j) \<and>
            (\<exists>page. fst (nextPage (paginatorAfter nextPage paginator j)) = Inr page))"

text \<open>Every configuration on the first \<open>n\<close> pages has the four fields.\<close>

definition pagesWellFormed ::
  "('p \<Rightarrow> (error + ListFunctionsOutput) \<times> 'p) \<Rightarrow> 'p \<Rightarrow> nat \<Rightarrow> bool" where
  "pagesWellFormed nextPage paginator n =
     (\<forall>j<n. \<forall>page. fst (nextPage (paginatorAfter nextPage paginator j)) = Inr page \<longrightarrow>
            (\<forall>fn\<in>set (Functions page). wellFormed fn))"

text \<open>
  Every configuration on a page that the loop of ListFunctions fetches has the four
  fields. Page \<open>n\<close> is fetched when the pages before it were there and succeeded and
  the paginator has more pages.
\<close>

definition fetchedPagesWellFormed ::
  "('p \<Rightarrow> bool) \<Rightarrow> ('p \<Rightarrow> (error + ListFunctionsOutput) \<times> 'p) \<Rightarrow> 'p \<Rightarrow> bool" where
  "fetchedPagesWellFormed hasMorePages nextPage paginator =
     (\<forall>n page. pagesSucceed hasMorePages nextPage paginator n \<and>
               hasMorePages (paginatorAfter nextPage paginator n) \<and>
               fst (nextPage (paginatorAfter nextPage paginator n)) = Inr page
                 \<longrightarrow> (\<forall>fn\<in>set (Functions page). wellFormed fn))"

text \<open>Every configuration that the output of GetFunction carries has the four fields.\<close>

definition returnedConfigurationWellFormed :: "GetFunctionOutput \<Rightarrow> bool" where
  "returnedConfigurationWellFormed result =
     (\<forall>fn\<in>set_option (Configuration result). wellFormed fn)"

text \<open>The configurations on the first \<open>n\<close> pages, in the order of the pages.\<close>

fun fetchedConfigurations ::
  "('p \<Rightarrow> (error + ListFunctionsOutput) \<times> 'p) \<Rightarrow> 'p \<Rightarrow> nat \<Rightarrow> FunctionConfiguration list" where
  "fetchedConfigurations nextPage paginator 0 = []"
| "fetchedConfigurations nextPage paginator (Suc n) =
     (case fst (nextPage paginator) of Inl err \<Rightarrow> [] | Inr page \<Rightarrow> Functions page) @
     fetchedConfigurations nextPage (snd (nextPage paginator)) n"

text \<open>
  A paginator that replays a given finite sequence of outcomes: its state is the
  list of the outcomes still to come. Asked for a page when none is left, the
  SDK's paginator returns an error.
\<close>

definition replayHasMorePages :: "(error + ListFunctionsOutput) list \<Rightarrow> bool" where
  "replayHasMorePages outcomes = (outcomes \<noteq> [])"

definition replayNextPage ::
  "(error + ListFunctionsOutput) list
     \<Rightarrow> (error + ListFunctionsOutput) \<times> (error + ListFunctionsOutput) list" where
  "replayNextPage outcomes =
     (case outcomes of
        [] \<Rightarrow> (Inl ''no more pages available'', [])
      | outcome # rest \<Rightarrow> (outcome, rest))"

section \<open>Sample values\<close>

text \<open>A configuration like those of the LocalStack test functions, with two variables.\<close>

definition sampleConfiguration :: FunctionConfiguration where
  "sampleConfiguration =
     \<lparr>FunctionName = Some ''test-function'', Runtime = ''python3.9'',
      Handler = Some ''test_function.lambda_handler'', MemorySize = Some 128,
      Timeout = Some 30, State = ''Active'', Description = None,
      LastModified = Some ''yesterday'',
      Environment =
        Some \<lparr>Variables = Some [(''STAGE'', ''***masked***''), (''API_KEY'', ''abc'')]\<rparr>\<rparr>"

text \<open>A configuration without a handler, as a function packaged as a container image has.\<close>

definition imageConfiguration :: FunctionConfiguration where
  "imageConfiguration =
     \<lparr>FunctionName = Some ''image-function'', Runtime = [],
      Handler = None, MemorySize = Some 128,
      Timeout = Some 30, State = ''Active'', Description = None,
      LastModified = None, Environment = None\<rparr>"

definition sampleFunction :: Function where
  "sampleFunction =
     \<lparr>Name = ''test-function'', Runtime = ''python3.9'',
      Handler = ''test_function.lambda_handler'', Description = [], Memory = 128,
      Function.Timeout = 30, LastModified = 0, Status = ''Active'',
      Environment = [''STAGE'' \<mapsto> ''***masked***'', ''API_KEY'' \<mapsto> ''***masked***'']\<rparr>"


definition sampleKey :: ResourceKey where
  "sampleKey = \<lparr>kind = ''function'', accountIdentifier = ''123456789012'',
                region = ''us-east-1'', extra = []\<rparr>"

definition keyA :: ResourceKey where
  "keyA = \<lparr>kind = ''A'', accountIdentifier = [], region = [], extra = []\<rparr>"

definition keyB :: ResourceKey where
  "keyB = \<lparr>kind = ''B'', accountIdentifier = [], region = [], extra = []\<rparr>"

definition keyC :: ResourceKey where
  "keyC = \<lparr>kind = ''C'', accountIdentifier = [], region = [], extra = []\<rparr>"

definition emptyStore :: "nat CacheStore" where
  "emptyStore = \<lparr>entries = [], capacity = 2\<rparr>"


definition freshBroker :: "nat ResourceBroker" where
  "freshBroker =
     \<lparr>session = \<lparr>accountIdentifier = ''123456789012'', region = ''us-east-1'',
                  profile = ''default'', version = 1\<rparr>,
      cache = emptyStore,
      fetches = 0\<rparr>"

text \<open>A fetch function whose first invocation fails and whose later ones succeed.\<close>

definition flakyFetch :: "nat \<Rightarrow> ResourceKey \<Rightarrow> FailureKind \<times> string + nat" where
  "flakyFetch n k = (if n = 0 then Inl (ProviderError, ''AccessDenied'') else Inr 5)"

section \<open>isSensitiveEnvVar is the substring test\<close>

declare substringLoop.simps [simp del]

lemma slice_in_range:
  "i + length s \<le> length k \<Longrightarrow> slice k i (i + length s) = Inr (take (length s) (drop i k))"
  by (simp add: slice_def)

lemma substringLoop_eq:
  "substringLoop k s i = Inr (\<exists>j\<ge>i. occursAt s k j)"
proof (induction k s i rule: substringLoop.induct)
  case (1 k s i)
  show ?case
  proof (cases "int i \<le> int (length k) - int (length s)")
    case False
    then have "\<not> (\<exists>j\<ge>i. occursAt s k j)" by (auto simp: occursAt_def)
    with False show ?thesis by (subst substringLoop.simps) simp
  next
    case True
    then have le: "i + length s \<le> length k" by linarith
    show ?thesis
    proof (cases "take (length s) (drop i k) = s")
      case True
      then have "occursAt s k i" using le by (simp add: occursAt_def)
      then have "\<exists>j\<ge>i. occursAt s k j" by blast
      with True le \<open>int i \<le> _\<close> show ?thesis
        by (subst substringLoop.simps) (simp add: slice_in_range)
    next
      case False
      then have ni: "\<not> occursAt s k i" by (simp add: occursAt_def)
      have "(\<exists>j\<ge>i. occursAt s k j) = (\<exists>j\<ge>i + 1. occursAt s k j)"
      proof
        assume "\<exists>j\<ge>i. occursAt s k j"
        then obtain j where j: "j \<ge> i" "occursAt s k j" by blast
        with ni have "j \<noteq> i" by auto
        with j show "\<exists>j\<ge>i + 1. occursAt s k j" by (intro exI[of _ j]) simp
      next
        assume "\<exists>j\<ge>i + 1. occursAt s k j"
        then show "\<exists>j\<ge>i. occursAt s k j" by (meson add_leD1)
      qed
      moreover have "substringLoop k s (i + 1) = Inr (\<exists>j\<ge>i + 1. occursAt s k j)"
        using "1.IH"[OF True slice_in_range[OF le]] False by simp
      ultimately show ?thesis using True False le
        by (subst substringLoop.simps) (simp add: slice_in_range)
    qed
  qed
qed

lemma sublist_occursAt: "sublist s k = (\<exists>j. occursAt s k j)"
proof
  assume "sublist s k"
  then obtain ps ss where "k = ps @ s @ ss" by (auto simp: sublist_def)
  then have "occursAt s k (length ps)" by (simp add: occursAt_def)
  then show "\<exists>j. occursAt s k j" ..
next
  assume "\<exists>j. occursAt s k j"
  then obtain j where j: "j + length s \<le> length k" "take (length s) (drop j k) = s"
    by (auto simp: occursAt_def)
  have "k = take j k @ take (length s) (drop j k) @ drop (length s) (drop j k)"
    by (simp only: append_take_drop_id)
  with j have "k = take j k @ s @ drop (length s) (drop j k)" by simp
  then show "sublist s k" unfolding sublist_def by blast
qed

lemma substringLoop_0: "substringLoop k s 0 = Inr (sublist s k)"
  by (simp add: substringLoop_eq sublist_occursAt)

lemma guard_sublist:
  assumes "\<not> (k = s \<or> length k > length s)"
  shows "\<not> sublist s k"
proof
  assume "sublist s k"
  then obtain ps ss where k: "k = ps @ s @ ss" by (auto simp: sublist_def)
  with assms have "length ps + length ss = 0" by simp
  with k assms show False by simp
qed

lemma sensitiveLoop_eq: "sensitiveLoop k ws = Inr (\<exists>w\<in>set ws. sublist w k)"
proof (induction ws)
  case Nil
  show ?case by simp
next
  case (Cons w ws)
  show ?case
  proof (cases "k = w \<or> length k > length w")
    case True
    then show ?thesis using Cons.IH by (auto simp: substringLoop_0)
  next
    case False
    from guard_sublist[OF False] False show ?thesis using Cons.IH by simp
  qed
qed

lemma isSensitiveEnvVar_eq: "isSensitiveEnvVar k = Inr (containsSensitiveKeyword k)"
  unfolding isSensitiveEnvVar_def sensitiveLoop_eq containsSensitiveKeyword_def sensitiveKeys_def
    list_ex_iff ..

section \<open>The conversion of a configuration\<close>

lemma ListFunctions_maskLoop_eq:
  "distinct (map fst vars) \<Longrightarrow>
   ListFunctions_maskLoop vars env =
     Inr (\<lambda>k. case map_of vars k of None \<Rightarrow> env k | Some v \<Rightarrow> Some (maskedValue k v))"
proof (induction vars arbitrary: env)
  case Nil
  show ?case by simp
next
  case (Cons kv vars)
  obtain a b where kv: "kv = (a, b)" by (cases kv)
  from Cons.prems kv have d: "distinct (map fst vars)" and na: "map_of vars a = None"
    by (auto simp: map_of_eq_None_iff)
  have "ListFunctions_maskLoop (kv # vars) env =
          ListFunctions_maskLoop vars (env(a \<mapsto> maskedValue a b))"
    by (simp add: kv isSensitiveEnvVar_eq maskedValue_def)
  also have "\<dots> = Inr (\<lambda>k. case map_of vars k of
                            None \<Rightarrow> (env(a \<mapsto> maskedValue a b)) k
                          | Some v \<Rightarrow> Some (maskedValue k v))"
    by (rule Cons.IH[OF d])
  also have "(\<lambda>k. case map_of vars k of
                   None \<Rightarrow> (env(a \<mapsto> maskedValue a b)) k
                 | Some v \<Rightarrow> Some (maskedValue k v)) =
             (\<lambda>k. case map_of (kv # vars) k of None \<Rightarrow> env k | Some v \<Rightarrow> Some (maskedValue k v))"
    using na by (auto simp: kv fun_eq_iff split: option.splits)
  finally show ?case .
qed

lemma maskLoops_equal: "GetFunction_maskLoop vars env = ListFunctions_maskLoop vars env"
proof (induction vars arbitrary: env)
  case Nil
  show ?case by simp
next
  case (Cons kv vars)
  obtain a b where kv: "kv = (a, b)" by (cases kv)
  show ?case
    using Cons.IH[of "env(a \<mapsto> masked)"] Cons.IH[of "env(a \<mapsto> b)"]
    by (simp add: kv isSensitiveEnvVar_eq fun_upd_def)
qed

lemma maskLoop_no_panic: "\<exists>env'. ListFunctions_maskLoop vars env = Inr env'"
proof (induction vars arbitrary: env)
  case Nil
  show ?case by simp
next
  case (Cons kv vars)
  obtain a b where kv: "kv = (a, b)" by (cases kv)
  show ?case by (simp add: kv isSensitiveEnvVar_eq Cons.IH)
qed

lemma convert_no_panic:
  assumes "wellFormed fn"
  shows "\<exists>f. ListFunctions_convert parse fn = Inr f"
proof -
  from assms obtain name handler memory timeout where
    "FunctionName fn = Some name" "FunctionConfiguration.Handler fn = Some handler"
    "MemorySize fn = Some memory" "FunctionConfiguration.Timeout fn = Some timeout"
    by (auto simp: wellFormed_def)
  note fields = this
  show ?thesis
  proof (cases "FunctionConfiguration.Environment fn")
    case None
    with fields show ?thesis by (simp add: ListFunctions_convert_def Let_def)
  next
    case (Some e)
    show ?thesis
    proof (cases "Variables e")
      case None
      with Some fields show ?thesis by (simp add: ListFunctions_convert_def Let_def)
    next
      case (Some vars)
      obtain env where "ListFunctions_maskLoop vars Map.empty = Inr env"
        using maskLoop_no_panic by blast
      with Some \<open>FunctionConfiguration.Environment fn = Some e\<close> fields show ?thesis
        by (simp add: ListFunctions_convert_def Let_def split: option.splits)
    qed
  qed
qed

lemma convert_panics_without_fields:
  assumes "\<not> wellFormed fn"
  shows "ListFunctions_convert parse fn = Inl NilDereference"
  using assms by (auto simp: wellFormed_def ListFunctions_convert_def split: option.splits)

lemma pageLoop_no_panic:
  "\<forall>fn\<in>set fns. wellFormed fn \<Longrightarrow> \<exists>fs. ListFunctions_pageLoop parse fns acc = Inr fs"
proof (induction fns arbitrary: acc)
  case Nil
  show ?case by simp
next
  case (Cons fn fns)
  then obtain f where "ListFunctions_convert parse fn = Inr f"
    using convert_no_panic[of fn parse] by auto
  with Cons show ?case by simp
qed

section \<open>The loop over the pages\<close>

lemma pagesSucceed_Suc:
  "pagesSucceed h nx p (Suc n) =
     (h p \<and> (\<exists>page. fst (nx p) = Inr page) \<and> pagesSucceed h nx (snd (nx p)) n)"
  unfolding pagesSucceed_def
  by (auto simp: less_Suc_eq_0_disj)

lemma pagesWellFormed_Suc:
  "pagesWellFormed nx p (Suc n) =
     ((\<forall>page. fst (nx p) = Inr page \<longrightarrow> (\<forall>fn\<in>set (Functions page). wellFormed fn)) \<and>
      pagesWellFormed nx (snd (nx p)) n)"
  unfolding pagesWellFormed_def
  by (auto simp: less_Suc_eq_0_disj)

lemma loop_error_page:
  assumes "h p" "fst (nx p) = Inl err"
  shows "ListFunctions_loop parse h nx p acc = Some (Inr ([], Some err))"
  using assms by (subst ListFunctions_loop.simps) (auto split: prod.splits)

lemma loop_reaches_error:
  "pagesSucceed h nx p i \<Longrightarrow> pagesWellFormed nx p i \<Longrightarrow>
   h (paginatorAfter nx p i) \<Longrightarrow> fst (nx (paginatorAfter nx p i)) = Inl err \<Longrightarrow>
   ListFunctions_loop parse h nx p acc = Some (Inr ([], Some err))"
proof (induction i arbitrary: p acc)
  case 0
  then show ?case by (simp add: loop_error_page)
next
  case (Suc i)
  from Suc.prems(1) obtain page where hp: "h p" and page: "fst (nx p) = Inr page"
    and rest: "pagesSucceed h nx (snd (nx p)) i"
    by (auto simp: pagesSucceed_Suc)
  from Suc.prems(2) page have wf: "\<forall>fn\<in>set (Functions page). wellFormed fn"
    and wfrest: "pagesWellFormed nx (snd (nx p)) i"
    by (auto simp: pagesWellFormed_Suc)
  obtain acc' where acc': "ListFunctions_pageLoop parse (Functions page) acc = Inr acc'"
    using pageLoop_no_panic[OF wf] by blast
  have "ListFunctions_loop parse h nx p acc = ListFunctions_loop parse h nx (snd (nx p)) acc'"
    using hp page acc' by (subst ListFunctions_loop.simps) (auto split: prod.splits)
  also have "\<dots> = Some (Inr ([], Some err))"
    using Suc.IH[OF rest wfrest] Suc.prems(3,4) by simp
  finally show ?case .
qed

lemma loop_finishes:
  "pagesSucceed h nx p n \<Longrightarrow> pagesWellFormed nx p n \<Longrightarrow> \<not> h (paginatorAfter nx p n) \<Longrightarrow>
   \<exists>fs. ListFunctions_loop parse h nx p acc = Some (Inr (fs, None))"
proof (induction n arbitrary: p acc)
  case 0
  then show ?case by (subst ListFunctions_loop.simps) simp
next
  case (Suc n)
  from Suc.prems(1) obtain page where hp: "h p" and page: "fst (nx p) = Inr page"
    and rest: "pagesSucceed h nx (snd (nx p)) n"
    by (auto simp: pagesSucceed_Suc)
  from Suc.prems(2) page have wf: "\<forall>fn\<in>set (Functions page). wellFormed fn"
    and wfrest: "pagesWellFormed nx (snd (nx p)) n"
    by (auto simp: pagesWellFormed_Suc)
  obtain acc' where acc': "ListFunctions_pageLoop parse (Functions page) acc = Inr acc'"
    using pageLoop_no_panic[OF wf] by blast
  have "ListFunctions_loop parse h nx p acc = ListFunctions_loop parse h nx (snd (nx p)) acc'"
    using hp page acc' by (subst ListFunctions_loop.simps) (auto split: prod.splits)
  moreover have "\<exists>fs. ListFunctions_loop parse h nx (snd (nx p)) acc' = Some (Inr (fs, None))"
    using Suc.IH[OF rest wfrest] Suc.prems(3) by simp
  ultimately show ?case by simp
qed

lemma loop_result:
  assumes "ListFunctions_loop parse h nx p acc = Some r"
  shows
   "(case r of
      Inl pn \<Rightarrow> True
    | Inr (fs, Some err) \<Rightarrow>
        fs = [] \<and> (\<exists>i. pagesSucceed h nx p i \<and> h (paginatorAfter nx p i) \<and>
                        fst (nx (paginatorAfter nx p i)) = Inl err)
    | Inr (fs, None) \<Rightarrow>
        (\<exists>n. pagesSucceed h nx p n \<and> \<not> h (paginatorAfter nx p n)))"
proof (induction parse h nx p acc r rule: ListFunctions_loop.raw_induct)
  case (1 loop parse h nx p acc r)
  show ?case
  proof (cases "h p")
    case False
    with 1(2) have r: "r = Inr (acc, None)" by simp
    have "pagesSucceed h nx p 0" by (simp add: pagesSucceed_def)
    with False show ?thesis unfolding r by (auto intro: exI[of _ 0])
  next
    case True
    obtain res p' where nx: "nx p = (res, p')" by (cases "nx p")
    show ?thesis
    proof (cases res)
      case (Inl err)
      with 1(2) True nx have r: "r = Inr ([], Some err)" by simp
      have "pagesSucceed h nx p 0" by (simp add: pagesSucceed_def)
      with True nx Inl show ?thesis unfolding r by (auto intro: exI[of _ 0])
    next
      case (Inr page)
      show ?thesis
      proof (cases "ListFunctions_pageLoop parse (Functions page) acc")
        case (Inl pn)
        with 1(2) True nx Inr show ?thesis by auto
      next
        case acc': (Inr acc')
        with 1(2) True nx Inr have call: "loop parse h nx p' acc' = Some r" by simp
        note ih = 1(1)[OF call]
        have p': "p' = snd (nx p)" using nx by simp
        have hd: "h p \<and> (\<exists>page. fst (nx p) = Inr page)" using True nx Inr by simp
        show ?thesis
        proof (cases r)
          case (Inl pn)
          then show ?thesis by simp
        next
          case r: (Inr pr)
          obtain fs e where pr: "pr = (fs, e)" by (cases pr)
          show ?thesis
          proof (cases e)
            case None
            with ih r pr obtain n where "pagesSucceed h nx p' n" "\<not> h (paginatorAfter nx p' n)"
              by auto
            then have "pagesSucceed h nx p (Suc n) \<and> \<not> h (paginatorAfter nx p (Suc n))"
              using hd by (simp add: pagesSucceed_Suc p')
            then show ?thesis unfolding r pr None by (auto simp del: paginatorAfter.simps)
          next
            case (Some err)
            with ih r pr obtain i where "fs = []" "pagesSucceed h nx p' i" "h (paginatorAfter nx p' i)"
              "fst (nx (paginatorAfter nx p' i)) = Inl err"
              by auto
            then have "fs = [] \<and> pagesSucceed h nx p (Suc i) \<and> h (paginatorAfter nx p (Suc i)) \<and>
                fst (nx (paginatorAfter nx p (Suc i))) = Inl err"
              using hd by (simp add: pagesSucceed_Suc p')
            then show ?thesis unfolding r pr Some by (auto simp del: paginatorAfter.simps)
          qed
        qed
      qed
    qed
  qed
qed fact

lemma pageLoop_appends:
  "ListFunctions_pageLoop parse fns acc = Inr acc' \<Longrightarrow>
   \<exists>fs. acc' = acc @ fs \<and> map Inr fs = map (ListFunctions_convert parse) fns"
proof (induction fns arbitrary: acc)
  case Nil
  then show ?case by simp
next
  case (Cons fn fns)
  from Cons.prems obtain f where f: "ListFunctions_convert parse fn = Inr f"
    and rest: "ListFunctions_pageLoop parse fns (acc @ [f]) = Inr acc'"
    by (auto split: sum.splits)
  from Cons.IH[OF rest] obtain fs where "acc' = (acc @ [f]) @ fs"
    "map Inr fs = map (ListFunctions_convert parse) fns" by blast
  then have "acc' = acc @ (f # fs) \<and> map Inr (f # fs) = map (ListFunctions_convert parse) (fn # fns)"
    using f by simp
  then show ?case by blast
qed

lemma loop_lists_conversions:
  assumes "ListFunctions_loop parse h nx p acc = Some r"
  shows "\<forall>fs. r = Inr (fs, None) \<longrightarrow>
           (\<exists>n fs'. pagesSucceed h nx p n \<and> \<not> h (paginatorAfter nx p n) \<and> fs = acc @ fs' \<and>
              map Inr fs' = map (ListFunctions_convert parse) (fetchedConfigurations nx p n))"
proof (induction parse h nx p acc r rule: ListFunctions_loop.raw_induct)
  case (1 loop parse h nx p acc r)
  show ?case
  proof (intro allI impI)
    fix fs assume r: "r = Inr (fs, None)"
    show "\<exists>n fs'. pagesSucceed h nx p n \<and> \<not> h (paginatorAfter nx p n) \<and> fs = acc @ fs' \<and>
              map Inr fs' = map (ListFunctions_convert parse) (fetchedConfigurations nx p n)"
    proof (cases "h p")
      case False
      with 1(2) r have "fs = acc" by simp
      moreover have "pagesSucceed h nx p 0" by (simp add: pagesSucceed_def)
      ultimately have "pagesSucceed h nx p 0 \<and> \<not> h (paginatorAfter nx p 0) \<and> fs = acc @ [] \<and>
          map Inr [] = map (ListFunctions_convert parse) (fetchedConfigurations nx p 0)"
        using False by simp
      then show ?thesis by blast
    next
      case True
      obtain res p' where nx: "nx p = (res, p')" by (cases "nx p")
      show ?thesis
      proof (cases res)
        case (Inl err)
        with 1(2) True nx r show ?thesis by simp
      next
        case (Inr page)
        show ?thesis
        proof (cases "ListFunctions_pageLoop parse (Functions page) acc")
          case (Inl pn)
          with 1(2) True nx Inr r show ?thesis by simp
        next
          case acc': (Inr acc')
          with 1(2) True nx Inr have call: "loop parse h nx p' acc' = Some r" by simp
          from 1(1)[OF call] r obtain n fs' where n: "pagesSucceed h nx p' n"
            "\<not> h (paginatorAfter nx p' n)" "fs = acc' @ fs'"
            "map Inr fs' = map (ListFunctions_convert parse) (fetchedConfigurations nx p' n)"
            by blast
          from pageLoop_appends[OF acc'] obtain fs0 where fs0: "acc' = acc @ fs0"
            "map Inr fs0 = map (ListFunctions_convert parse) (Functions page)" by blast
          have p': "p' = snd (nx p)" and pg: "fst (nx p) = Inr page" using nx Inr by simp_all
          have "pagesSucceed h nx p (Suc n)"
            using True pg n(1) by (simp add: pagesSucceed_Suc p')
          moreover have "\<not> h (paginatorAfter nx p (Suc n))" using n(2) by (simp add: p')
          moreover have "fs = acc @ (fs0 @ fs')" using n(3) fs0(1) by simp
          moreover have "map Inr (fs0 @ fs') =
              map (ListFunctions_convert parse) (fetchedConfigurations nx p (Suc n))"
            using n(4) fs0(2) pg by (simp add: p')
          ultimately show ?thesis by blast
        qed
      qed
    qed
  qed
qed fact

lemma ListFunctions_lists_conversions:
  assumes "ListFunctions parse h nx p = Some (Inr (fs, None))"
  shows "\<exists>n. pagesSucceed h nx p n \<and> \<not> h (paginatorAfter nx p n) \<and>
             map Inr fs = map (ListFunctions_convert parse) (fetchedConfigurations nx p n)"
proof -
  from assms have "ListFunctions_loop parse h nx p [] = Some (Inr (fs, None))"
    by (simp add: ListFunctions_def)
  from loop_lists_conversions[OF this] show ?thesis by auto
qed

section \<open>Further facts about the service\<close>

lemma converts_equal: "GetFunction_convert parse fn = ListFunctions_convert parse fn"
  unfolding GetFunction_convert_def ListFunctions_convert_def maskLoops_equal ..

lemma sample_wf: "wellFormed sampleConfiguration"
  by (simp add: wellFormed_def sampleConfiguration_def)

lemma STAGE_not_sensitive: "\<not> containsSensitiveKeyword ''STAGE''"
  by (simp add: containsSensitiveKeyword_def sublist_code prefix_code)

lemma API_KEY_sensitive: "containsSensitiveKeyword ''API_KEY''"
  by (simp add: containsSensitiveKeyword_def sublist_code prefix_code)

lemma sample_convert: "ListFunctions_convert Map.empty sampleConfiguration = Inr sampleFunction"
  by (simp add: ListFunctions_convert_def sampleConfiguration_def sampleFunction_def
        isSensitiveEnvVar_eq STAGE_not_sensitive API_KEY_sensitive masked_def zeroTime_def)

lemma replay_single_page:
  "ListFunctions parse replayHasMorePages replayNextPage [Inr \<lparr>Functions = [fn]\<rparr>] =
     Some (map_sum id (\<lambda>f. ([f], None)) (ListFunctions_convert parse fn))"
proof -
  have last: "\<And>acc. ListFunctions_loop parse replayHasMorePages replayNextPage [] acc = Some (Inr (acc, None))"
    by (subst ListFunctions_loop.simps) (simp add: replayHasMorePages_def)
  show ?thesis
    unfolding ListFunctions_def
    by (subst ListFunctions_loop.simps)
       (simp add: replayHasMorePages_def replayNextPage_def last split: sum.splits)
qed

lemma GetFunction_of_configuration:
  "client name = Inr \<lparr>Configuration = Some fn\<rparr> \<Longrightarrow>
   GetFunction parse client name = map_sum id (\<lambda>f. (Some f, None)) (GetFunction_convert parse fn)"
  by (simp add: GetFunction_def split: sum.splits)

lemma GetFunction_nil_Configuration:
  "client name = Inr \<lparr>Configuration = None\<rparr> \<Longrightarrow> GetFunction parse client name = Inl NilDereference"
  by (simp add: GetFunction_def)

lemma convert_Description:
  "ListFunctions_convert parse fn = Inr f \<Longrightarrow>
   Function.Description f = (case FunctionConfiguration.Description fn of None \<Rightarrow> [] | Some d \<Rightarrow> d)"
  by (auto simp: ListFunctions_convert_def Let_def split: option.splits sum.splits)

lemma convert_LastModified:
  "ListFunctions_convert parse fn = Inr f \<Longrightarrow>
   Function.LastModified f =
     (case FunctionConfiguration.LastModified fn of
        None \<Rightarrow> zeroTime
      | Some s \<Rightarrow> (case parse s of None \<Rightarrow> zeroTime | Some t \<Rightarrow> t))"
  by (auto simp: ListFunctions_convert_def Let_def split: option.splits sum.splits)

lemma fetchedPagesWellFormed_first:
  assumes "fetchedPagesWellFormed h nx p" and "h p" and "fst (nx p) = Inr page"
  shows "\<forall>fn\<in>set (Functions page). wellFormed fn"
proof -
  have "pagesSucceed h nx p 0" by (simp add: pagesSucceed_def)
  with assms show ?thesis unfolding fetchedPagesWellFormed_def
    by (metis paginatorAfter.simps(1))
qed

lemma fetchedPagesWellFormed_tail:
  assumes "fetchedPagesWellFormed h nx p" and "h p" and "fst (nx p) = Inr page"
  shows "fetchedPagesWellFormed h nx (snd (nx p))"
  unfolding fetchedPagesWellFormed_def
proof (intro allI impI)
  fix n pg
  assume a: "pagesSucceed h nx (snd (nx p)) n \<and> h (paginatorAfter nx (snd (nx p)) n) \<and>
             fst (nx (paginatorAfter nx (snd (nx p)) n)) = Inr pg"
  then have "pagesSucceed h nx p (Suc n)" using assms(2,3) by (simp add: pagesSucceed_Suc)
  moreover from a have "h (paginatorAfter nx p (Suc n))"
    "fst (nx (paginatorAfter nx p (Suc n))) = Inr pg" by simp_all
  ultimately show "\<forall>fn\<in>set (Functions pg). wellFormed fn"
    using assms(1) unfolding fetchedPagesWellFormed_def by blast
qed

lemma loop_no_panic:
  assumes "ListFunctions_loop parse h nx p acc = Some r"
  shows "fetchedPagesWellFormed h nx p \<longrightarrow> (\<forall>pn. r \<noteq> Inl pn)"
proof (induction parse h nx p acc r rule: ListFunctions_loop.raw_induct)
  case (1 loop parse h nx p acc r)
  show ?case
  proof
    assume wf: "fetchedPagesWellFormed h nx p"
    show "\<forall>pn. r \<noteq> Inl pn"
    proof (cases "h p")
      case False
      with 1(2) have "r = Inr (acc, None)" by simp
      then show ?thesis by simp
    next
      case True
      obtain res p' where nx: "nx p = (res, p')" by (cases "nx p")
      show ?thesis
      proof (cases res)
        case (Inl err)
        with 1(2) True nx have "r = Inr ([], Some err)" by simp
        then show ?thesis by simp
      next
        case (Inr page)
        with nx have pg: "fst (nx p) = Inr page" by simp
        from fetchedPagesWellFormed_first[OF wf True pg]
        have "\<exists>fs. ListFunctions_pageLoop parse (Functions page) acc = Inr fs"
          by (rule pageLoop_no_panic)
        then obtain acc' where acc': "ListFunctions_pageLoop parse (Functions page) acc = Inr acc'" ..
        with 1(2) True nx Inr have call: "loop parse h nx p' acc' = Some r" by simp
        have "fetchedPagesWellFormed h nx p'"
          using fetchedPagesWellFormed_tail[OF wf True pg] nx by simp
        with 1(1)[OF call] show ?thesis by (rule mp)
      qed
    qed
  qed
qed fact

lemma replay_after_end: "paginatorAfter replayNextPage [] n = []"
  by (induction n) (simp_all add: replayNextPage_def)

lemma replay_one_page_fetched:
  assumes "\<forall>fn\<in>set fns. wellFormed fn"
  shows "fetchedPagesWellFormed replayHasMorePages replayNextPage [Inr \<lparr>Functions = fns\<rparr>]"
  unfolding fetchedPagesWellFormed_def
proof (intro allI impI)
  fix n page
  assume a: "pagesSucceed replayHasMorePages replayNextPage [Inr \<lparr>Functions = fns\<rparr>] n \<and>
     replayHasMorePages (paginatorAfter replayNextPage [Inr \<lparr>Functions = fns\<rparr>] n) \<and>
     fst (replayNextPage (paginatorAfter replayNextPage [Inr \<lparr>Functions = fns\<rparr>] n)) = Inr page"
  show "\<forall>fn\<in>set (Functions page). wellFormed fn"
  proof (cases n)
    case 0
    with a have "page = \<lparr>Functions = fns\<rparr>" by (simp add: replayNextPage_def)
    with assms show ?thesis by simp
  next
    case (Suc m)
    have "snd (replayNextPage [Inr \<lparr>Functions = fns\<rparr>]) = []" by (simp add: replayNextPage_def)
    then have "paginatorAfter replayNextPage [Inr \<lparr>Functions = fns\<rparr>] n = []"
      using Suc by (simp add: replay_after_end)
    with a show ?thesis by (simp add: replayNextPage_def)
  qed
qed

lemma replay_failing_first_page_fetched:
  "fetchedPagesWellFormed replayHasMorePages replayNextPage (Inl err # rest)"
  unfolding fetchedPagesWellFormed_def
proof (intro allI impI)
  fix n page
  assume a: "pagesSucceed replayHasMorePages replayNextPage (Inl err # rest) n \<and>
     replayHasMorePages (paginatorAfter replayNextPage (Inl err # rest) n) \<and>
     fst (replayNextPage (paginatorAfter replayNextPage (Inl err # rest) n)) = Inr page"
  show "\<forall>fn\<in>set (Functions page). wellFormed fn"
  proof (cases n)
    case 0
    with a show ?thesis by (simp add: replayNextPage_def)
  next
    case (Suc m)
    with a have "pagesSucceed replayHasMorePages replayNextPage (Inl err # rest) (Suc m)" by simp
    then show ?thesis by (simp add: pagesSucceed_Suc replayNextPage_def)
  qed
qed

lemma image_not_wf: "\<not> wellFormed imageConfiguration"
  by (simp add: wellFormed_def imageConfiguration_def)

section \<open>Facts about the cache store and the broker\<close>

lemma find_Put:
  "find (\<lambda>e. key e = k) (entries (Put now current k v t store)) =
     Some \<lparr>key = k, value = v, storedAt = now, ttl = t, sessionVersion = current\<rparr>"
  by (simp add: Put_def Let_def)

lemma Get_Put:
  "fst (Get now current k (Put stored current k v t store)) =
     (if now - stored < t then Some v else None)"
  by (simp add: Get_def find_Put valid_def)



lemma Get_miss_store: "fst (Get now current k store) = None \<Longrightarrow> snd (Get now current k store) = store"
  by (auto simp: Get_def split: option.splits if_splits)

lemma Get_miss_later:
  assumes "fst (Get now current k store) = None" and "now \<le> later"
  shows "fst (Get later current k store) = None"
proof (cases "find (\<lambda>e. key e = k) (entries store)")
  case None
  then show ?thesis by (simp add: Get_def)
next
  case (Some e)
  with assms(1) have "\<not> valid now current e" by (auto simp: Get_def split: if_splits)
  with assms(2) have "\<not> valid later current e" by (auto simp: valid_def)
  with Some show ?thesis by (simp add: Get_def)
qed

lemma Request_miss:
  assumes "fst (Get now (version (session b)) (requestKey (session b) k scope) (cache b)) = None"
  shows "Request now t fetchFn k scope b =
           (case fetchFn (fetches b) (requestKey (session b) k scope) of
              Inl (failure, message) \<Rightarrow> (Failed failure message, b\<lparr>fetches := fetches b + 1\<rparr>)
            | Inr v \<Rightarrow>
                (Resolved v False,
                 b\<lparr>cache := Put now (version (session b)) (requestKey (session b) k scope) v t (cache b),
                   fetches := fetches b + 1\<rparr>))"
proof -
  obtain r store where g: "Get now (version (session b)) (requestKey (session b) k scope) (cache b) = (r, store)"
    by (cases "Get now (version (session b)) (requestKey (session b) k scope) (cache b)")
  with assms have r: "r = None" by simp
  from Get_miss_store[OF assms] g have store: "store = cache b" by simp
  show ?thesis
    by (simp add: Request_def Let_def g r store split: sum.splits prod.splits)
qed

lemma Request_Failed:
  assumes "Request now t fetchFn k scope b = (Failed failure message, b')"
  shows "fst (Get now (version (session b)) (requestKey (session b) k scope) (cache b)) = None \<and>
         fetchFn (fetches b) (requestKey (session b) k scope) = Inl (failure, message) \<and>
         b' = b\<lparr>fetches := fetches b + 1\<rparr>"
proof -
  obtain r store where g: "Get now (version (session b)) (requestKey (session b) k scope) (cache b) = (r, store)"
    by (cases "Get now (version (session b)) (requestKey (session b) k scope) (cache b)")
  have r: "r = None"
  proof (cases r)
    case None then show ?thesis .
  next
    case (Some v)
    with assms g show ?thesis by (simp add: Request_def Let_def)
  qed
  then have miss: "fst (Get now (version (session b)) (requestKey (session b) k scope) (cache b)) = None"
    using g by simp
  from assms show ?thesis
    unfolding Request_miss[OF miss] using miss
    by (auto split: sum.splits prod.splits)
qed

text \<open>
  The scenario of the specification: with capacity 2, after the three writes A, B, C
  the entry of A has been evicted and those of B and C are served.
\<close>

lemma lru_scenario:
  "fst (Get 1 0 keyA (Put 0 0 keyC 3 60 (Put 0 0 keyB 2 60 (Put 0 0 keyA (1::nat) 60 emptyStore)))) = None \<and>
   fst (Get 1 0 keyB (Put 0 0 keyC 3 60 (Put 0 0 keyB 2 60 (Put 0 0 keyA (1::nat) 60 emptyStore)))) = Some 2 \<and>
   fst (Get 1 0 keyC (Put 0 0 keyC 3 60 (Put 0 0 keyB 2 60 (Put 0 0 keyA (1::nat) 60 emptyStore)))) = Some 3"
  by (simp add: Get_def Put_def emptyStore_def keyA_def keyB_def keyC_def valid_def Let_def)

section \<open>The properties\<close>

subsection \<open>C1: expiry of an entry\<close>

text \<open>
  Claim C1. In the cache store, \<open>Put(K, V, ttl = t)\<close> at the time \<open>stored\<close> followed by
  \<open>Get(K)\<close> at a time strictly before \<open>stored + t\<close> returns \<open>(V, true)\<close>, and \<open>Get(K)\<close> at a
  time strictly after \<open>stored + t\<close> returns \<open>(_, false)\<close>, for every key and every value
  (and every store, capacity and session version).
\<close>

theorem ttl_correctness:
  "(now < stored + t \<longrightarrow> fst (Get now current K (Put stored current K V t store)) = Some V) \<and>
   (stored + t < now \<longrightarrow> fst (Get now current K (Put stored current K V t store)) = None)"
  by (simp add: Get_Put)

text \<open>An entry written at time 0 with a lifetime of 60 is served at 59 and not at 61.\<close>

theorem ttl_correctness_witness:
  "(59::int) < 0 + 60 \<and> fst (Get 59 1 sampleKey (Put 0 1 sampleKey (7::nat) 60 emptyStore)) = Some 7 \<and>
   (0::int) + 60 < 61 \<and> fst (Get 61 1 sampleKey (Put 0 1 sampleKey (7::nat) 60 emptyStore)) = None"
  using ttl_correctness[of 59 0 60 1 sampleKey 7 emptyStore]
        ttl_correctness[of 61 0 60 1 sampleKey 7 emptyStore]
  by simp

subsection \<open>C3: the session version\<close>




subsection \<open>C4: a failure is not cached\<close>

text \<open>
  Claim C4. When \<open>Request(K)\<close> ends in a failure, the fetch function was invoked and
  failed, the store is as it was, \<open>Get(K)\<close> at any later time returns \<open>(_, false)\<close>,
  and the next \<open>Request(K)\<close> invokes the fetch function once more and delivers the
  outcome of that new invocation, not the earlier failure.
\<close>

theorem failure_never_cached:
  assumes "Request now t fetchFn k scope b = (Failed failure message, b')"
    and "now \<le> later"
  shows "fetchFn (fetches b) (requestKey (session b) k scope) = Inl (failure, message) \<and>
         fetches b' = fetches b + 1 \<and>
         cache b' = cache b \<and>
         fst (Get later (version (session b')) (requestKey (session b') k scope) (cache b')) = None \<and>
         fetches (snd (Request later t fetchFn k scope b')) = fetches b' + 1 \<and>
         fst (Request later t fetchFn k scope b') =
           (case fetchFn (fetches b') (requestKey (session b') k scope) of
              Inl (failure', message') \<Rightarrow> Failed failure' message'
            | Inr v \<Rightarrow> Resolved v False)"
proof -
  from Request_Failed[OF assms(1)]
  have miss: "fst (Get now (version (session b)) (requestKey (session b) k scope) (cache b)) = None"
    and fail: "fetchFn (fetches b) (requestKey (session b) k scope) = Inl (failure, message)"
    and b': "b' = b\<lparr>fetches := fetches b + 1\<rparr>"
    by simp_all
  have later: "fst (Get later (version (session b')) (requestKey (session b') k scope) (cache b')) = None"
    using Get_miss_later[OF miss assms(2)] by (simp add: b')
  note again = Request_miss[OF later, of t fetchFn]
  have "fetches (snd (Request later t fetchFn k scope b')) = fetches b' + 1"
    unfolding again by (simp split: sum.splits prod.splits)
  moreover have "fst (Request later t fetchFn k scope b') =
           (case fetchFn (fetches b') (requestKey (session b') k scope) of
              Inl (failure', message') \<Rightarrow> Failed failure' message'
            | Inr v \<Rightarrow> Resolved v False)"
    unfolding again by (simp split: sum.splits prod.splits)
  ultimately show ?thesis using fail later by (simp add: b')
qed

text \<open>
  With a fetch function that fails once: the first request fails, the key is
  absent afterwards, and the second request fetches again and resolves.
\<close>

theorem failure_never_cached_witness:
  "Request 0 60 flakyFetch ''function'' [] freshBroker =
     (Failed ProviderError ''AccessDenied'', freshBroker\<lparr>fetches := 1\<rparr>) \<and>
   (0::int) \<le> 5 \<and>
   fst (Get 5 1 sampleKey (cache (freshBroker\<lparr>fetches := 1\<rparr>))) = None \<and>
   fetches (snd (Request 5 60 flakyFetch ''function'' [] (freshBroker\<lparr>fetches := 1\<rparr>))) = 2 \<and>
   fst (Request 5 60 flakyFetch ''function'' [] (freshBroker\<lparr>fetches := 1\<rparr>)) = Resolved 5 False"
proof -
  have k: "requestKey (session freshBroker) ''function'' [] = sampleKey"
    by (simp add: requestKey_def freshBroker_def sampleKey_def)
  have first: "Request 0 60 flakyFetch ''function'' [] freshBroker =
     (Failed ProviderError ''AccessDenied'', freshBroker\<lparr>fetches := 1\<rparr>)"
    by (simp add: Request_def Let_def k Get_def freshBroker_def emptyStore_def flakyFetch_def)
  note inst = failure_never_cached[OF first, of 5]
  have k': "requestKey (session (freshBroker\<lparr>fetches := 1\<rparr>)) ''function'' [] = sampleKey"
    using k by simp
  have v: "version (session (freshBroker\<lparr>fetches := 1\<rparr>)) = 1" by (simp add: freshBroker_def)
  from inst have "fst (Get 5 1 sampleKey (cache (freshBroker\<lparr>fetches := 1\<rparr>))) = None"
    unfolding k' v by simp
  moreover from inst have "fetches (snd (Request 5 60 flakyFetch ''function'' [] (freshBroker\<lparr>fetches := 1\<rparr>))) = 2"
    by simp
  moreover from inst have "fst (Request 5 60 flakyFetch ''function'' [] (freshBroker\<lparr>fetches := 1\<rparr>)) = Resolved 5 False"
    unfolding k' by (simp add: flakyFetch_def)
  ultimately show ?thesis using first by simp
qed

subsection \<open>C5: masking of environment variables\<close>

text \<open>
  Claim C5, as stated, fails: the variable STAGE contains none of the keywords,
  yet it is bound to the masking text, because that text is its original value.
\<close>

theorem masked_iff_counterexample:
  "ListFunctions_convert Map.empty sampleConfiguration = Inr sampleFunction \<and>
   GetFunction_convert Map.empty sampleConfiguration = Inr sampleFunction \<and>
   Function.Environment sampleFunction ''STAGE'' = Some ''***masked***'' \<and>
   \<not> containsSensitiveKeyword ''STAGE''"
  by (simp add: converts_equal sample_convert STAGE_not_sensitive) (simp add: sampleFunction_def)

text \<open>
  Claim C5, amended. For every variable \<open>k\<close> with value \<open>v\<close> of a configuration that is
  converted, by ListFunctions or by GetFunction, the Environment of the record
  that is listed or fetched binds \<open>k\<close> to the masking text if \<open>k\<close> contains one of the twelve keywords as a
  contiguous substring, and to \<open>v\<close> otherwise. So \<open>k\<close> is bound to the masking text
  if and only if it contains a keyword or \<open>v\<close> is the masking text itself.
\<close>

theorem environment_masking:
  assumes "wellFormed fn"
    and "FunctionConfiguration.Environment fn = Some e"
    and "Variables e = Some vars"
    and "distinct (map fst vars)"
    and "(k, v) \<in> set vars"
  shows "\<exists>f. ListFunctions_convert parse fn = Inr f \<and> GetFunction_convert parse fn = Inr f \<and>
             ListFunctions parse replayHasMorePages replayNextPage [Inr \<lparr>Functions = [fn]\<rparr>]
               = Some (Inr ([f], None)) \<and>
             GetFunction parse (\<lambda>name. Inr \<lparr>Configuration = Some fn\<rparr>) name
               = Inr (Some f, None) \<and>
             Function.Environment f k =
               Some (if containsSensitiveKeyword k then ''***masked***'' else v) \<and>
             (Function.Environment f k = Some ''***masked***'') =
               (containsSensitiveKeyword k \<or> v = ''***masked***'')"
proof -
  from assms(1) obtain functionName handler memory timeout where fields:
    "FunctionName fn = Some functionName" "FunctionConfiguration.Handler fn = Some handler"
    "MemorySize fn = Some memory" "FunctionConfiguration.Timeout fn = Some timeout"
    by (auto simp: wellFormed_def)
  have lookup: "map_of vars k = Some v" using assms(4,5) by simp
  obtain f where f: "ListFunctions_convert parse fn = Inr f"
    using convert_no_panic[OF assms(1)] by blast
  have g: "GetFunction_convert parse fn = Inr f"
    using f by (simp add: converts_equal)
  have "Function.Environment f k = Some (maskedValue k v)"
    using f fields assms(2,3) lookup
    by (auto simp: ListFunctions_convert_def Let_def ListFunctions_maskLoop_eq[OF assms(4)]
          split: option.splits)
  then have env: "Function.Environment f k = Some (if containsSensitiveKeyword k then ''***masked***'' else v)"
    by (simp add: maskedValue_def masked_def)
  have listed: "ListFunctions parse replayHasMorePages replayNextPage [Inr \<lparr>Functions = [fn]\<rparr>]
               = Some (Inr ([f], None))"
    using f by (simp add: replay_single_page)
  have fetched: "GetFunction parse (\<lambda>name. Inr \<lparr>Configuration = Some fn\<rparr>) name
               = Inr (Some f, None)"
    using g by (simp add: GetFunction_of_configuration)
  from env have "(Function.Environment f k = Some ''***masked***'') =
               (containsSensitiveKeyword k \<or> v = ''***masked***'')"
    by auto
  with f g listed fetched env show ?thesis by (intro exI[of _ f] conjI)
qed

text \<open>
  The sample configuration: API_KEY is masked, STAGE keeps its value (which
  happens to be the masking text).
\<close>

theorem environment_masking_witness:
  "wellFormed sampleConfiguration \<and>
   FunctionConfiguration.Environment sampleConfiguration =
     Some \<lparr>Variables = Some [(''STAGE'', ''***masked***''), (''API_KEY'', ''abc'')]\<rparr> \<and>
   distinct (map fst [(''STAGE'', ''***masked***''), (''API_KEY'', ''abc'')]) \<and>
   containsSensitiveKeyword ''API_KEY'' \<and>
   (\<exists>f. ListFunctions_convert Map.empty sampleConfiguration = Inr f \<and>
        GetFunction_convert Map.empty sampleConfiguration = Inr f \<and>
        ListFunctions Map.empty replayHasMorePages replayNextPage
          [Inr \<lparr>Functions = [sampleConfiguration]\<rparr>] = Some (Inr ([f], None)) \<and>
        GetFunction Map.empty (\<lambda>name. Inr \<lparr>Configuration = Some sampleConfiguration\<rparr>)
          ''test-function'' = Inr (Some f, None) \<and>
        Function.Environment f ''API_KEY'' = Some ''***masked***'')"
proof -
  let ?vars = "[(''STAGE'', ''***masked***''), (''API_KEY'', ''abc'')]"
  have env: "FunctionConfiguration.Environment sampleConfiguration = Some \<lparr>Variables = Some ?vars\<rparr>"
    by (simp add: sampleConfiguration_def)
  have d: "distinct (map fst ?vars)" by simp
  have m: "(''API_KEY'', ''abc'') \<in> set ?vars" by simp
  from environment_masking[OF sample_wf env _ d m, of Map.empty "''test-function''"]
  have "\<exists>f. ListFunctions_convert Map.empty sampleConfiguration = Inr f \<and>
        GetFunction_convert Map.empty sampleConfiguration = Inr f \<and>
        ListFunctions Map.empty replayHasMorePages replayNextPage
          [Inr \<lparr>Functions = [sampleConfiguration]\<rparr>] = Some (Inr ([f], None)) \<and>
        GetFunction Map.empty (\<lambda>name. Inr \<lparr>Configuration = Some sampleConfiguration\<rparr>)
          ''test-function'' = Inr (Some f, None) \<and>
        Function.Environment f ''API_KEY'' = Some ''***masked***''"
    by (simp add: API_KEY_sensitive)
  with sample_wf env d API_KEY_sensitive show ?thesis by (intro conjI)
qed

subsection \<open>C8: ListFunctions is all or nothing\<close>

text \<open>
  Claim C8. If the loop of ListFunctions reaches a page whose fetch returns an
  error (the pages before it were fetched and converted), ListFunctions returns
  a nil list together with that error: nothing accumulated from the earlier
  pages is returned. Whenever ListFunctions returns an error, its list is nil and
  the error is the one of the first page that failed. It returns a list with a
  nil error only when the paginator has run out of pages and every page fetched
  succeeded; the list then holds the conversions of all configurations of all
  pages, in order. And when the paginator runs out after pages that all succeed
  and convert, ListFunctions does return such a list.
\<close>

theorem ListFunctions_all_or_nothing:
  "(pagesSucceed hasMorePages nextPage paginator i \<and> pagesWellFormed nextPage paginator i \<and>
    hasMorePages (paginatorAfter nextPage paginator i) \<and>
    fst (nextPage (paginatorAfter nextPage paginator i)) = Inl err
      \<longrightarrow> ListFunctions parse hasMorePages nextPage paginator = Some (Inr ([], Some err))) \<and>
   (ListFunctions parse hasMorePages nextPage paginator = Some (Inr (fs, Some e))
      \<longrightarrow> fs = [] \<and>
          (\<exists>i. pagesSucceed hasMorePages nextPage paginator i \<and>
               hasMorePages (paginatorAfter nextPage paginator i) \<and>
               fst (nextPage (paginatorAfter nextPage paginator i)) = Inl e)) \<and>
   (ListFunctions parse hasMorePages nextPage paginator = Some (Inr (fs, None))
      \<longrightarrow> (\<exists>n. pagesSucceed hasMorePages nextPage paginator n \<and>
               \<not> hasMorePages (paginatorAfter nextPage paginator n) \<and>
               map Inr fs =
                 map (ListFunctions_convert parse) (fetchedConfigurations nextPage paginator n))) \<and>
   (pagesSucceed hasMorePages nextPage paginator i \<and> pagesWellFormed nextPage paginator i \<and>
    \<not> hasMorePages (paginatorAfter nextPage paginator i)
      \<longrightarrow> (\<exists>all. ListFunctions parse hasMorePages nextPage paginator = Some (Inr (all, None))))"
proof -
  have first: "ListFunctions parse hasMorePages nextPage paginator = Some (Inr ([], Some err))"
    if "pagesSucceed hasMorePages nextPage paginator i \<and> pagesWellFormed nextPage paginator i \<and>
        hasMorePages (paginatorAfter nextPage paginator i) \<and>
        fst (nextPage (paginatorAfter nextPage paginator i)) = Inl err"
    unfolding ListFunctions_def
    using that loop_reaches_error[of hasMorePages nextPage paginator i err parse "[]"] by simp
  have second: "fs = [] \<and>
          (\<exists>i. pagesSucceed hasMorePages nextPage paginator i \<and>
               hasMorePages (paginatorAfter nextPage paginator i) \<and>
               fst (nextPage (paginatorAfter nextPage paginator i)) = Inl e)"
    if "ListFunctions parse hasMorePages nextPage paginator = Some (Inr (fs, Some e))"
  proof -
    from that
    have "ListFunctions_loop parse hasMorePages nextPage paginator [] = Some (Inr (fs, Some e))"
      by (simp add: ListFunctions_def)
    from loop_result[OF this] show ?thesis by simp
  qed
  have third: "\<exists>n. pagesSucceed hasMorePages nextPage paginator n \<and>
             \<not> hasMorePages (paginatorAfter nextPage paginator n) \<and>
             map Inr fs =
               map (ListFunctions_convert parse) (fetchedConfigurations nextPage paginator n)"
    if "ListFunctions parse hasMorePages nextPage paginator = Some (Inr (fs, None))"
    using that by (rule ListFunctions_lists_conversions)
  have fourth: "\<exists>all. ListFunctions parse hasMorePages nextPage paginator = Some (Inr (all, None))"
    if "pagesSucceed hasMorePages nextPage paginator i \<and> pagesWellFormed nextPage paginator i \<and>
        \<not> hasMorePages (paginatorAfter nextPage paginator i)"
    unfolding ListFunctions_def
    using that loop_finishes[of hasMorePages nextPage paginator i parse "[]"] by simp
  from first second third fourth show ?thesis by blast
qed

text \<open>
  A paginator whose second page fails: the function of the first page is not
  returned. A paginator with one good page: its function is returned.
\<close>

theorem ListFunctions_all_or_nothing_witness:
  "pagesSucceed replayHasMorePages replayNextPage
     [Inr \<lparr>Functions = [sampleConfiguration]\<rparr>, Inl ''throttled'',
      Inr \<lparr>Functions = [sampleConfiguration]\<rparr>] 1 \<and>
   pagesWellFormed replayNextPage
     [Inr \<lparr>Functions = [sampleConfiguration]\<rparr>, Inl ''throttled'',
      Inr \<lparr>Functions = [sampleConfiguration]\<rparr>] 1 \<and>
   fst (replayNextPage (paginatorAfter replayNextPage
     [Inr \<lparr>Functions = [sampleConfiguration]\<rparr>, Inl ''throttled'',
      Inr \<lparr>Functions = [sampleConfiguration]\<rparr>] 1)) = Inl ''throttled'' \<and>
   ListFunctions Map.empty replayHasMorePages replayNextPage
     [Inr \<lparr>Functions = [sampleConfiguration]\<rparr>, Inl ''throttled'',
      Inr \<lparr>Functions = [sampleConfiguration]\<rparr>] = Some (Inr ([], Some ''throttled'')) \<and>
   ListFunctions Map.empty replayHasMorePages replayNextPage
     [Inr \<lparr>Functions = [sampleConfiguration]\<rparr>] = Some (Inr ([sampleFunction], None)) \<and>
   fetchedConfigurations replayNextPage [Inr \<lparr>Functions = [sampleConfiguration]\<rparr>] 1 =
     [sampleConfiguration]"
proof -
  let ?page = "Inr \<lparr>Functions = [sampleConfiguration]\<rparr> :: error + ListFunctionsOutput"
  let ?failing = "[?page, Inl ''throttled'', ?page]"
  have one: "paginatorAfter replayNextPage ?failing 1 = [Inl ''throttled'', ?page]"
    by (simp add: replayNextPage_def)
  have s: "pagesSucceed replayHasMorePages replayNextPage ?failing 1"
    by (simp add: pagesSucceed_def replayHasMorePages_def replayNextPage_def)
  have w: "pagesWellFormed replayNextPage ?failing 1"
    by (simp add: pagesWellFormed_def replayNextPage_def sample_wf)
  have h: "replayHasMorePages (paginatorAfter replayNextPage ?failing 1)"
    unfolding one by (simp add: replayHasMorePages_def)
  have e: "fst (replayNextPage (paginatorAfter replayNextPage ?failing 1)) = Inl ''throttled''"
    unfolding one by (simp add: replayNextPage_def)
  have failing: "ListFunctions Map.empty replayHasMorePages replayNextPage ?failing
                   = Some (Inr ([], Some ''throttled''))"
    using ListFunctions_all_or_nothing[of replayHasMorePages replayNextPage ?failing 1
            "''throttled''" Map.empty "[]" "''throttled''"] s w h e
    by blast
  have ok: "ListFunctions Map.empty replayHasMorePages replayNextPage [?page]
              = Some (Inr ([sampleFunction], None))"
    by (simp add: replay_single_page sample_convert)
  have fetched: "fetchedConfigurations replayNextPage [?page] 1 = [sampleConfiguration]"
    by (simp add: replayNextPage_def)
  from s w e failing ok fetched show ?thesis by (intro conjI)
qed

subsection \<open>C9: ListFunctions and GetFunction convert alike\<close>

text \<open>
  Claim C9. From the same configuration ListFunctions and GetFunction build the
  same record, or panic alike; this includes the environment with its masking.
  A single page with one configuration is listed as the very record that
  GetFunction returns for that configuration. The Description of the record
  is empty when the configuration has none, and its LastModified is the zero
  time when the configuration has no timestamp or one that fails to parse.
\<close>

theorem conversions_agree:
  "ListFunctions_convert parse fn = GetFunction_convert parse fn \<and>
   (\<forall>f. (ListFunctions parse replayHasMorePages replayNextPage [Inr \<lparr>Functions = [fn]\<rparr>]
            = Some (Inr ([f], None))) =
        (GetFunction parse (\<lambda>name. Inr \<lparr>Configuration = Some fn\<rparr>) name = Inr (Some f, None))) \<and>
   (\<forall>f. GetFunction_convert parse fn = Inr f \<longrightarrow>
        (FunctionConfiguration.Description fn = None \<longrightarrow> Function.Description f = []) \<and>
        (FunctionConfiguration.LastModified fn = None \<or>
         (\<exists>s. FunctionConfiguration.LastModified fn = Some s \<and> parse s = None)
           \<longrightarrow> Function.LastModified f = zeroTime))"
proof (intro conjI allI impI)
  show eq: "ListFunctions_convert parse fn = GetFunction_convert parse fn"
    by (simp add: converts_equal)
  fix f
  show "(ListFunctions parse replayHasMorePages replayNextPage [Inr \<lparr>Functions = [fn]\<rparr>]
            = Some (Inr ([f], None))) =
        (GetFunction parse (\<lambda>name. Inr \<lparr>Configuration = Some fn\<rparr>) name = Inr (Some f, None))"
    by (cases "ListFunctions_convert parse fn")
       (simp_all add: replay_single_page GetFunction_of_configuration converts_equal)
next
  fix f assume f: "GetFunction_convert parse fn = Inr f" and "FunctionConfiguration.Description fn = None"
  then show "Function.Description f = []"
    using convert_Description[of parse fn f] by (simp add: converts_equal)
next
  fix f assume f: "GetFunction_convert parse fn = Inr f"
    and "FunctionConfiguration.LastModified fn = None \<or>
         (\<exists>s. FunctionConfiguration.LastModified fn = Some s \<and> parse s = None)"
  then show "Function.LastModified f = zeroTime"
    using convert_LastModified[of parse fn f] by (auto simp: converts_equal)
qed

text \<open>
  The sample configuration has no description and a timestamp that does not parse.
\<close>

theorem conversions_agree_witness:
  "FunctionConfiguration.Description sampleConfiguration = None \<and>
   FunctionConfiguration.LastModified sampleConfiguration = Some ''yesterday'' \<and>
   (Map.empty :: string \<Rightarrow> Time option) ''yesterday'' = None \<and>
   GetFunction_convert Map.empty sampleConfiguration = Inr sampleFunction \<and>
   ListFunctions_convert Map.empty sampleConfiguration = Inr sampleFunction \<and>
   Function.Description sampleFunction = [] \<and>
   Function.LastModified sampleFunction = zeroTime"
proof -
  note inst = conversions_agree[of Map.empty sampleConfiguration "''test-function''"]
  have d: "FunctionConfiguration.Description sampleConfiguration = None"
    and l: "FunctionConfiguration.LastModified sampleConfiguration = Some ''yesterday''"
    by (simp_all add: sampleConfiguration_def)
  from inst have g: "GetFunction_convert Map.empty sampleConfiguration = Inr sampleFunction"
    by (simp add: sample_convert)
  from inst g d have "Function.Description sampleFunction = []" by blast
  moreover from inst g l have "Function.LastModified sampleFunction = zeroTime" by simp
  ultimately show ?thesis using d l g sample_convert by simp
qed

subsection \<open>C10: the conversion does not panic\<close>

text \<open>
  Claim C10, as stated, fails for GetFunction. The conversion starts with
  \<open>fn := result.Configuration\<close> and \<open>*fn.FunctionName\<close>, and \<open>Configuration\<close> is a
  pointer. When the provider's output carries no configuration, every
  configuration it returns has the four fields, there being none, and
  GetFunction panics on the first dereference.
\<close>

theorem GetFunction_nil_Configuration_counterexample:
  "returnedConfigurationWellFormed \<lparr>Configuration = None\<rparr> \<and>
   GetFunction Map.empty (\<lambda>name. Inr \<lparr>Configuration = None\<rparr>) ''test-function''
     = Inl NilDereference"
  by (simp add: returnedConfigurationWellFormed_def GetFunction_def)

text \<open>
  Claim C10, amended. A configuration whose FunctionName, Handler, MemorySize and
  Timeout are not nil is converted without a panic, by ListFunctions and by
  GetFunction. Hence ListFunctions does not panic when every configuration on
  every page that it fetches has these fields, and GetFunction returns a record
  when the provider's output carries a configuration, which is the added
  condition, and that configuration has these fields.
\<close>

theorem conversion_panic_free:
  "(wellFormed fn \<longrightarrow>
      (\<exists>f. ListFunctions_convert parse fn = Inr f \<and> GetFunction_convert parse fn = Inr f)) \<and>
   (fetchedPagesWellFormed hasMorePages nextPage paginator \<longrightarrow>
      ListFunctions parse hasMorePages nextPage paginator \<noteq> Some (Inl pn)) \<and>
   (client name = Inr result \<and> Configuration result \<noteq> None \<and>
    returnedConfigurationWellFormed result \<longrightarrow>
      (\<exists>f. GetFunction parse client name = Inr (Some f, None)))"
proof (intro conjI impI)
  assume "wellFormed fn"
  then show "\<exists>f. ListFunctions_convert parse fn = Inr f \<and> GetFunction_convert parse fn = Inr f"
    using convert_no_panic[of fn parse] by (auto simp: converts_equal)
next
  assume wf: "fetchedPagesWellFormed hasMorePages nextPage paginator"
  show "ListFunctions parse hasMorePages nextPage paginator \<noteq> Some (Inl pn)"
  proof
    assume "ListFunctions parse hasMorePages nextPage paginator = Some (Inl pn)"
    then have "ListFunctions_loop parse hasMorePages nextPage paginator [] = Some (Inl pn)"
      by (simp add: ListFunctions_def)
    from loop_no_panic[OF this] wf show False by blast
  qed
next
  assume a: "client name = Inr result \<and> Configuration result \<noteq> None \<and>
    returnedConfigurationWellFormed result"
  then obtain cfg where cfg: "Configuration result = Some cfg" by auto
  with a have "wellFormed cfg" by (simp add: returnedConfigurationWellFormed_def)
  then obtain f where "GetFunction_convert parse cfg = Inr f"
    using convert_no_panic[of cfg parse] by (auto simp: converts_equal)
  with a cfg show "\<exists>f. GetFunction parse client name = Inr (Some f, None)"
    by (simp add: GetFunction_def)
qed

text \<open>
  The sample configuration, listed on a single page and fetched by name. A page
  that is never fetched, here the one after a failing page, may hold a
  configuration without a handler: ListFunctions returns the error and does not
  panic.
\<close>

theorem conversion_panic_free_witness:
  "wellFormed sampleConfiguration \<and>
   fetchedPagesWellFormed replayHasMorePages replayNextPage
     [Inr \<lparr>Functions = [sampleConfiguration]\<rparr>] \<and>
   Configuration \<lparr>Configuration = Some sampleConfiguration\<rparr> \<noteq> None \<and>
   returnedConfigurationWellFormed \<lparr>Configuration = Some sampleConfiguration\<rparr> \<and>
   (\<exists>f. ListFunctions_convert Map.empty sampleConfiguration = Inr f \<and>
        GetFunction_convert Map.empty sampleConfiguration = Inr f) \<and>
   ListFunctions Map.empty replayHasMorePages replayNextPage
      [Inr \<lparr>Functions = [sampleConfiguration]\<rparr>] \<noteq> Some (Inl NilDereference) \<and>
   (\<exists>f. GetFunction Map.empty (\<lambda>name. Inr \<lparr>Configuration = Some sampleConfiguration\<rparr>)
          ''test-function'' = Inr (Some f, None)) \<and>
   \<not> wellFormed imageConfiguration \<and>
   fetchedPagesWellFormed replayHasMorePages replayNextPage
     [Inl ''throttled'', Inr \<lparr>Functions = [imageConfiguration]\<rparr>] \<and>
   ListFunctions Map.empty replayHasMorePages replayNextPage
     [Inl ''throttled'', Inr \<lparr>Functions = [imageConfiguration]\<rparr>] \<noteq> Some (Inl NilDereference)"
proof -
  have wf: "wellFormed sampleConfiguration"
    by (simp add: wellFormed_def sampleConfiguration_def)
  have pages: "fetchedPagesWellFormed replayHasMorePages replayNextPage
     [Inr \<lparr>Functions = [sampleConfiguration]\<rparr>]"
    using wf by (simp add: replay_one_page_fetched)
  have some: "Configuration \<lparr>Configuration = Some sampleConfiguration\<rparr> \<noteq> None" by simp
  have ret: "returnedConfigurationWellFormed \<lparr>Configuration = Some sampleConfiguration\<rparr>"
    using wf by (simp add: returnedConfigurationWellFormed_def)
  note inst = conversion_panic_free[of sampleConfiguration Map.empty replayHasMorePages replayNextPage
      "[Inr \<lparr>Functions = [sampleConfiguration]\<rparr>]" NilDereference
      "\<lambda>name. Inr \<lparr>Configuration = Some sampleConfiguration\<rparr>" "''test-function''"
      "\<lparr>Configuration = Some sampleConfiguration\<rparr>"]
  from inst wf have c1: "\<exists>f. ListFunctions_convert Map.empty sampleConfiguration = Inr f \<and>
        GetFunction_convert Map.empty sampleConfiguration = Inr f" by blast
  from inst pages have c2: "ListFunctions Map.empty replayHasMorePages replayNextPage
      [Inr \<lparr>Functions = [sampleConfiguration]\<rparr>] \<noteq> Some (Inl NilDereference)" by blast
  from inst some ret have c3: "\<exists>f. GetFunction Map.empty
      (\<lambda>name. Inr \<lparr>Configuration = Some sampleConfiguration\<rparr>) ''test-function'' = Inr (Some f, None)"
    by simp
  have unfetched: "fetchedPagesWellFormed replayHasMorePages replayNextPage
     [Inl ''throttled'', Inr \<lparr>Functions = [imageConfiguration]\<rparr>]"
    by (rule replay_failing_first_page_fetched)
  from conversion_panic_free[of sampleConfiguration Map.empty replayHasMorePages replayNextPage
      "[Inl ''throttled'', Inr \<lparr>Functions = [imageConfiguration]\<rparr>]" NilDereference
      "\<lambda>name. Inr \<lparr>Configuration = Some sampleConfiguration\<rparr>" "''test-function''"
      "\<lparr>Configuration = Some sampleConfiguration\<rparr>"] unfetched
  have c4: "ListFunctions Map.empty replayHasMorePages replayNextPage
     [Inl ''throttled'', Inr \<lparr>Functions = [imageConfiguration]\<rparr>] \<noteq> Some (Inl NilDereference)"
    by blast
  from wf pages some ret c1 c2 c3 image_not_wf unfetched c4 show ?thesis by (intro conjI)
qed

end
